theory Spec2Isabelle
  imports Main
begin

section \<open>Python values seen by the registration module\<close>

text \<open>
  The module \<^verbatim>\<open>tensorflow/python/saved_model/registration.py\<close> keeps two module
  globals, a dict \<^verbatim>\<open>_CLASS_REGISTRY\<close> and a list \<^verbatim>\<open>_REGISTERED_NAMES\<close>, and
  offers \<^verbatim>\<open>get_registered_name\<close>, \<^verbatim>\<open>get_registered_class\<close> and the decorator
  factory \<^verbatim>\<open>register_serializable\<close>.

  A class object has an identity, a \<^verbatim>\<open>__name__\<close> and its direct bases. Two class
  objects are the same object exactly when the terms are equal, so the identity field
  separates classes that share a name.
\<close>

datatype pyclass = PyClass (class_id: nat) (class_name: string) (class_bases: "pyclass list")

text \<open>
  The objects handed to the module: \<^verbatim>\<open>None\<close>, booleans, integers, strings, class
  objects, and instances of a class (told apart by an object identity).
\<close>

datatype pyval =
    PyNone
  | PyBool bool
  | PyInt int
  | PyStr string
  | PyType pyclass
  | PyInstance pyclass nat

definition object_cls :: pyclass where
  "object_cls = PyClass 0 ''object'' []"

definition type_cls :: pyclass where
  "type_cls = PyClass 1 ''type'' [object_cls]"

definition NoneType_cls :: pyclass where
  "NoneType_cls = PyClass 2 ''NoneType'' [object_cls]"

definition int_cls :: pyclass where
  "int_cls = PyClass 3 ''int'' [object_cls]"

definition bool_cls :: pyclass where
  "bool_cls = PyClass 4 ''bool'' [int_cls]"

definition str_cls :: pyclass where
  "str_cls = PyClass 5 ''str'' [object_cls]"

text \<open>\<^verbatim>\<open>type(obj)\<close>: the exact runtime class of an object.\<close>

fun type_of :: "pyval \<Rightarrow> pyclass" where
  "type_of PyNone = NoneType_cls"
| "type_of (PyBool b) = bool_cls"
| "type_of (PyInt i) = int_cls"
| "type_of (PyStr s) = str_cls"
| "type_of (PyType c) = type_cls"
| "type_of (PyInstance c i) = c"

text \<open>\<^verbatim>\<open>bool(v)\<close>: the truth value Python gives an object in a condition.\<close>

fun truthy :: "pyval \<Rightarrow> bool" where
  "truthy PyNone = False"
| "truthy (PyBool b) = b"
| "truthy (PyInt i) = (i \<noteq> 0)"
| "truthy (PyStr s) = (s \<noteq> [])"
| "truthy (PyType c) = True"
| "truthy (PyInstance c i) = True"

text \<open>
  \<^verbatim>\<open>issubclass(c, d)\<close> along the bases; \<open>proper_subclass c d\<close> says that \<open>d\<close> is
  reached from \<open>c\<close> through at least one base, which is what a strict subclass is.
\<close>

fun issubclass :: "pyclass \<Rightarrow> pyclass \<Rightarrow> bool" where
  "issubclass (PyClass i n bs) d = (PyClass i n bs = d \<or> (\<exists>b \<in> set bs. issubclass b d))"

definition proper_subclass :: "pyclass \<Rightarrow> pyclass \<Rightarrow> bool" where
  "proper_subclass c d = (\<exists>b \<in> set (class_bases c). issubclass b d)"

definition isinstance :: "pyval \<Rightarrow> pyclass \<Rightarrow> bool" where
  "isinstance obj c = issubclass (type_of obj) c"

text \<open>
  The \<^verbatim>\<open>predicate\<close> argument is seen by the module through four observations only:
  \<^verbatim>\<open>predicate is None\<close>, \<^verbatim>\<open>callable(predicate)\<close>, its truth value
  (\<^verbatim>\<open>not predicate\<close>) and the call \<^verbatim>\<open>predicate(obj)\<close>. A callable carries its truth
  value (a function or lambda is always true; an instance of a class with
  \<^verbatim>\<open>__call__\<close> may define \<^verbatim>\<open>__bool__\<close>) and its behaviour when called, which either
  returns a value or raises. A predicate of this kind is, in line with invariant I3 of
  the specification, a classifier without side effects; user code that changes the
  globals, or whose truth tests raise, is the subject of the section on user code.

  Exceptions: the three \<^verbatim>\<open>ValueError\<close>s of the module carry the arguments of their
  message; \<^verbatim>\<open>KeyError\<close> carries the missing key; \<^verbatim>\<open>TypeError\<close> is what calling a
  non-callable raises; \<open>Raised\<close> stands for any other exception of user code.
\<close>

datatype pypred =
    PNone
  | PNonCallable bool
  | PCallable bool "pyval \<Rightarrow> exn + pyval"
and exn =
    ValueError vmsg
  | KeyError string
  | TypeError
  | Raised string
and vmsg =
    MustBeCallable
  | MustBeClass pyval
  | AlreadyRegistered string pypred pyval

fun is_None :: "pypred \<Rightarrow> bool" where
  "is_None PNone = True"
| "is_None (PNonCallable t) = False"
| "is_None (PCallable t f) = False"

fun callable :: "pypred \<Rightarrow> bool" where
  "callable PNone = False"
| "callable (PNonCallable t) = False"
| "callable (PCallable t f) = True"

fun pred_truthy :: "pypred \<Rightarrow> bool" where
  "pred_truthy PNone = False"
| "pred_truthy (PNonCallable t) = t"
| "pred_truthy (PCallable t f) = t"

fun call :: "pypred \<Rightarrow> pyval \<Rightarrow> exn + pyval" where
  "call PNone obj = Inl TypeError"
| "call (PNonCallable t) obj = Inl TypeError"
| "call (PCallable t f) obj = f obj"

text \<open>
  Modelled from the spec: \<^verbatim>\<open>tf_inspect.isclass\<close>, the type-introspection collaborator
  imported from \<^verbatim>\<open>tensorflow.python.util\<close>, which answers whether its argument is a
  class/type reference.
\<close>

fun isclass :: "pyval \<Rightarrow> bool" where
  "isclass (PyType c) = True"
| "isclass v = False"

text \<open>\<^verbatim>\<open>arg.__name__\<close>, read only after \<^verbatim>\<open>isclass(arg)\<close> has held.\<close>

fun dunder_name :: "pyval \<Rightarrow> string" where
  "dunder_name (PyType c) = class_name c"
| "dunder_name v = []"

section \<open>The module state\<close>

text \<open>
  \<^verbatim>\<open>_CLASS_REGISTRY = {}  # string registered name -> (predicate, class)\<close> and
  \<^verbatim>\<open>_REGISTERED_NAMES = []\<close>.
\<close>

record registry =
  CLASS_REGISTRY :: "string \<rightharpoonup> (pypred \<times> pyval)"
  REGISTERED_NAMES :: "string list"

definition empty_registry :: registry where
  "empty_registry = \<lparr>CLASS_REGISTRY = Map.empty, REGISTERED_NAMES = []\<rparr>"

text \<open>\<^verbatim>\<open>d[k]\<close> on a dict raises \<^verbatim>\<open>KeyError\<close> for a missing key.\<close>

definition dict_getitem :: "(string \<rightharpoonup> 'v) \<Rightarrow> string \<Rightarrow> exn + 'v" where
  "dict_getitem d k = (case d k of None \<Rightarrow> Inl (KeyError k) | Some v \<Rightarrow> Inr v)"

section \<open>The operations\<close>

text \<open>
  Every operation takes the module state and returns its outcome (a value, or the
  exception that leaves the call) together with the state it leaves behind: an
  exception in Python does not undo earlier writes, so the state is returned on both
  outcomes.

  The loop of \<^verbatim>\<open>get_registered_name\<close> over \<^verbatim>\<open>reversed(_REGISTERED_NAMES)\<close>:
  \<^verbatim>\<open>
    predicate, cls = _CLASS_REGISTRY[name]
    if not predicate and type(obj) == cls:
      return name
    if predicate and predicate(obj):
      return name
  \<close>
  and \<^verbatim>\<open>return None\<close> after it. An exception raised by \<^verbatim>\<open>_CLASS_REGISTRY[name]\<close>
  or by \<^verbatim>\<open>predicate(obj)\<close> leaves the function, which has no handler. In \<open>scan\<close>
  the user code that the two conditions run is the built-in one: \<^verbatim>\<open>type(obj) == cls\<close>
  compares two class objects, which are equal exactly when they are the same object;
  the truth tests are \<open>pred_truthy\<close> and \<open>truthy\<close>; a predicate is a function of the
  object. The section on user code below takes all of it as a parameter.
\<close>

fun scan :: "(string \<rightharpoonup> (pypred \<times> pyval)) \<Rightarrow> pyval \<Rightarrow> string list \<Rightarrow> exn + pyval" where
  "scan reg obj [] = Inr PyNone"
| "scan reg obj (name # names) =
     (case dict_getitem reg name of
        Inl e \<Rightarrow> Inl e
      | Inr (predicate, cls) \<Rightarrow>
          if \<not> pred_truthy predicate \<and> PyType (type_of obj) = cls then Inr (PyStr name)
          else if pred_truthy predicate then
            (case call predicate obj of
               Inl e \<Rightarrow> Inl e
             | Inr r \<Rightarrow> if truthy r then Inr (PyStr name) else scan reg obj names)
          else scan reg obj names)"

definition get_registered_name :: "pyval \<Rightarrow> registry \<Rightarrow> (exn + pyval) \<times> registry" where
  "get_registered_name obj st =
     (scan (CLASS_REGISTRY st) obj (rev (REGISTERED_NAMES st)), st)"

text \<open>
  \<^verbatim>\<open>
    try:
      return _CLASS_REGISTRY[registered_name][1]
    except KeyError:
      return None
  \<close>
\<close>

definition get_registered_class :: "string \<Rightarrow> registry \<Rightarrow> (exn + pyval) \<times> registry" where
  "get_registered_class registered_name st =
     (case dict_getitem (CLASS_REGISTRY st) registered_name of
        Inr entry \<Rightarrow> (Inr (snd entry), st)
      | Inl (KeyError k) \<Rightarrow> (Inr PyNone, st)
      | Inl e \<Rightarrow> (Inl e, st))"

text \<open>
  The inner function \<^verbatim>\<open>decorator(arg)\<close>, closed over \<^verbatim>\<open>package\<close>, \<^verbatim>\<open>name\<close> and
  \<^verbatim>\<open>predicate\<close>. The two writes are separate statements, the dict first.
\<close>

definition decorator ::
  "string \<Rightarrow> string option \<Rightarrow> pypred \<Rightarrow> pyval \<Rightarrow> registry \<Rightarrow> (exn + pyval) \<times> registry" where
  "decorator package name predicate arg st =
     (if \<not> isclass arg then (Inl (ValueError (MustBeClass arg)), st)
      else
        let class_name = (case name of Some n \<Rightarrow> n | None \<Rightarrow> dunder_name arg);
            registered_name = package @ ''.'' @ class_name
        in case CLASS_REGISTRY st registered_name of
             Some (p, c) \<Rightarrow> (Inl (ValueError (AlreadyRegistered registered_name p c)), st)
           | None \<Rightarrow>
               let st1 = st\<lparr>CLASS_REGISTRY := (CLASS_REGISTRY st)(registered_name \<mapsto> (predicate, arg))\<rparr>;
                   st2 = st1\<lparr>REGISTERED_NAMES := REGISTERED_NAMES st1 @ [registered_name]\<rparr>
               in (Inr arg, st2))"

text \<open>
  \<^verbatim>\<open>register_serializable(package, name, predicate)\<close> checks the predicate and returns
  the decorator; it reads and writes no global.
\<close>

definition register_serializable ::
  "string \<Rightarrow> string option \<Rightarrow> pypred \<Rightarrow>
     exn + (pyval \<Rightarrow> registry \<Rightarrow> (exn + pyval) \<times> registry)" where
  "register_serializable package name predicate =
     (if \<not> is_None predicate \<and> \<not> callable predicate then Inl (ValueError MustBeCallable)
      else Inr (decorator package name predicate))"

text \<open>
  The use of the decorator on a class,
  \<^verbatim>\<open>register_serializable(package, name, predicate)(arg)\<close>.
\<close>

definition register ::
  "string \<Rightarrow> string option \<Rightarrow> pypred \<Rightarrow> pyval \<Rightarrow> registry \<Rightarrow> (exn + pyval) \<times> registry" where
  "register package name predicate arg st =
     (case register_serializable package name predicate of
        Inl e \<Rightarrow> (Inl e, st)
      | Inr dec \<Rightarrow> dec arg st)"

section \<open>The resolve loop with user code as a parameter\<close>

text \<open>
  In \<open>scan\<close> a stored predicate has a fixed truth value and is a function of the
  object alone, and the comparison of classes is equality. In Python each of these is
  user code run inside the loop, with no handler around it:
  \<^item> \<^verbatim>\<open>not predicate\<close> in the first condition and \<^verbatim>\<open>predicate\<close> in the second run
    the truth test of the stored object (\<^verbatim>\<open>__bool__\<close>, \<^verbatim>\<open>__len__\<close>), once in each
    condition;
  \<^item> \<^verbatim>\<open>type(obj) == cls\<close> runs the \<^verbatim>\<open>__eq__\<close> of the metaclass and the truth test of
    what it returns;
  \<^item> \<^verbatim>\<open>predicate(obj)\<close> runs the predicate;
  \<^item> the second condition then runs the truth test of the value the predicate returned.
  Each may raise, each may change the module's globals (a predicate may itself call
  \<^verbatim>\<open>register_serializable\<close>, which changes the list and the dict in place), and each
  may read and change state of its own, so that it need not answer twice alike. A world
  is the two globals together with the rest of the interpreter's state, of an arbitrary
  type; the record \<open>usercode\<close> is what the interpreter does in the four places: every
  field takes a world and returns an outcome and the world it leaves.
\<close>

record 'u world =
  globals :: registry
  heap :: 'u

record 'u usercode =
  pred_bool :: "pypred \<Rightarrow> 'u world \<Rightarrow> (exn + bool) \<times> 'u world"
  type_eq :: "pyval \<Rightarrow> pyval \<Rightarrow> 'u world \<Rightarrow> (exn + bool) \<times> 'u world"
  pred_call :: "pypred \<Rightarrow> pyval \<Rightarrow> 'u world \<Rightarrow> (exn + pyval) \<times> 'u world"
  result_bool :: "pyval \<Rightarrow> 'u world \<Rightarrow> (exn + bool) \<times> 'u world"

text \<open>
  The condition \<^verbatim>\<open>not predicate and type(obj) == cls\<close>: the comparison is evaluated
  only when the truth test of the predicate answers false.
\<close>

definition first_if ::
  "'u usercode \<Rightarrow> pypred \<Rightarrow> pyval \<Rightarrow> pyval \<Rightarrow> 'u world \<Rightarrow> (exn + bool) \<times> 'u world" where
  "first_if uc predicate cls obj w =
     (case pred_bool uc predicate w of
        (Inl e, w1) \<Rightarrow> (Inl e, w1)
      | (Inr b, w1) \<Rightarrow> if b then (Inr False, w1) else type_eq uc obj cls w1)"

text \<open>
  The condition \<^verbatim>\<open>predicate and predicate(obj)\<close>: the predicate is called only when
  its truth test answers true, and the condition is the truth test of what it returns.
\<close>

definition second_if ::
  "'u usercode \<Rightarrow> pypred \<Rightarrow> pyval \<Rightarrow> 'u world \<Rightarrow> (exn + bool) \<times> 'u world" where
  "second_if uc predicate obj w =
     (case pred_bool uc predicate w of
        (Inl e, w1) \<Rightarrow> (Inl e, w1)
      | (Inr b, w1) \<Rightarrow>
          if b then
            (case pred_call uc predicate obj w1 of
               (Inl e, w2) \<Rightarrow> (Inl e, w2)
             | (Inr r, w2) \<Rightarrow> result_bool uc r w2)
          else (Inr False, w1))"

text \<open>
  \<^verbatim>\<open>for name in reversed(_REGISTERED_NAMES)\<close>: the reverse iterator of a list holds
  an index that starts at the last position; each step yields the element at the index
  if the index is still inside the list, and ends the loop otherwise. The argument
  \<open>Suc index\<close> stands for the iterator at \<open>index\<close>, and \<open>0\<close> for the iterator past
  the first element. The list and the dict are read from the current world at each
  step. The body is
  \<^verbatim>\<open>
    predicate, cls = _CLASS_REGISTRY[name]
    if not predicate and type(obj) == cls:
      return name
    if predicate and predicate(obj):
      return name
  \<close>
\<close>

fun scan_in :: "'u usercode \<Rightarrow> pyval \<Rightarrow> nat \<Rightarrow> 'u world \<Rightarrow> (exn + pyval) \<times> 'u world" where
  "scan_in uc obj 0 w = (Inr PyNone, w)"
| "scan_in uc obj (Suc index) w =
     (if index < length (REGISTERED_NAMES (globals w)) then
        (case dict_getitem (CLASS_REGISTRY (globals w)) (REGISTERED_NAMES (globals w) ! index) of
           Inl e \<Rightarrow> (Inl e, w)
         | Inr (predicate, cls) \<Rightarrow>
             (case first_if uc predicate cls obj w of
                (Inl e, w1) \<Rightarrow> (Inl e, w1)
              | (Inr b1, w1) \<Rightarrow>
                  if b1 then (Inr (PyStr (REGISTERED_NAMES (globals w) ! index)), w1)
                  else
                    (case second_if uc predicate obj w1 of
                       (Inl e, w2) \<Rightarrow> (Inl e, w2)
                     | (Inr b2, w2) \<Rightarrow>
                         if b2 then (Inr (PyStr (REGISTERED_NAMES (globals w) ! index)), w2)
                         else scan_in uc obj index w2)))
      else (Inr PyNone, w))"

definition get_registered_name_in ::
  "'u usercode \<Rightarrow> pyval \<Rightarrow> 'u world \<Rightarrow> (exn + pyval) \<times> 'u world" where
  "get_registered_name_in uc obj w = scan_in uc obj (length (REGISTERED_NAMES (globals w))) w"

text \<open>
  The user code that \<open>scan\<close> assumes: the truth value and the function that the
  stored predicate carries, equality of class objects, the built-in truth test, and no
  effect on the world.
\<close>

definition builtin_code :: "'u usercode" where
  "builtin_code =
     \<lparr>pred_bool = (\<lambda>predicate w. (Inr (pred_truthy predicate), w)),
      type_eq = (\<lambda>obj cls w. (Inr (PyType (type_of obj) = cls), w)),
      pred_call = (\<lambda>predicate obj w. (call predicate obj, w)),
      result_bool = (\<lambda>r w. (Inr (truthy r), w))\<rparr>"

text \<open>User code that leaves the two globals as it found them.\<close>

definition leaves_globals :: "'u usercode \<Rightarrow> bool" where
  "leaves_globals uc =
     ((\<forall>predicate w. globals (snd (pred_bool uc predicate w)) = globals w) \<and>
      (\<forall>obj cls w. globals (snd (type_eq uc obj cls w)) = globals w) \<and>
      (\<forall>predicate obj w. globals (snd (pred_call uc predicate obj w)) = globals w) \<and>
      (\<forall>r w. globals (snd (result_bool uc r w)) = globals w))"

section \<open>Clients of the module\<close>

text \<open>
  The match rule of one entry, as the two conditions of the loop body decide it:
  \<open>Inr True\<close> when the entry's name is returned, \<open>Inr False\<close> when the loop moves on,
  \<open>Inl e\<close> when the call of the predicate raises \<open>e\<close>.
\<close>

definition match_rule :: "pypred \<Rightarrow> pyval \<Rightarrow> pyval \<Rightarrow> exn + bool" where
  "match_rule predicate cls obj =
     (if \<not> pred_truthy predicate \<and> PyType (type_of obj) = cls then Inr True
      else if pred_truthy predicate then
        (case call predicate obj of Inl e \<Rightarrow> Inl e | Inr r \<Rightarrow> Inr (truthy r))
      else Inr False)"

text \<open>
  A client makes calls one after the other and sees each outcome; an exception ends
  the call that raised it, not the client.
\<close>

datatype op =
    Register string "string option" pypred pyval
  | GetName pyval
  | GetClass string

fun exec :: "op \<Rightarrow> registry \<Rightarrow> (exn + pyval) \<times> registry" where
  "exec (Register package name predicate arg) st = register package name predicate arg st"
| "exec (GetName obj) st = get_registered_name obj st"
| "exec (GetClass registered_name) st = get_registered_class registered_name st"

fun run :: "op list \<Rightarrow> registry \<Rightarrow> (exn + pyval) list \<times> registry" where
  "run [] st = ([], st)"
| "run (c # cs) st =
     (case exec c st of (r, st1) \<Rightarrow> (case run cs st1 of (rs, st2) \<Rightarrow> (r # rs, st2)))"

text \<open>
  The names of the registrations that succeeded, in call order, read off the calls
  and their outcomes.
\<close>

fun successes :: "op list \<Rightarrow> (exn + pyval) list \<Rightarrow> string list" where
  "successes (Register package name predicate arg # cs) (Inr v # rs) =
     (package @ ''.'' @ (case name of Some n \<Rightarrow> n | None \<Rightarrow> dunder_name arg)) # successes cs rs"
| "successes (c # cs) (r # rs) = successes cs rs"
| "successes cs rs = []"

text \<open>
  Invariant I1 of the specification: the order list holds exactly the keys of the
  dict, each once.
\<close>

definition I1 :: "registry \<Rightarrow> bool" where
  "I1 st = (distinct (REGISTERED_NAMES st) \<and> set (REGISTERED_NAMES st) = dom (CLASS_REGISTRY st))"

subsection \<open>Example classes and predicates\<close>

text \<open>
  \<^verbatim>\<open>class A: pass\<close>, \<^verbatim>\<open>class B(A): pass\<close>, \<^verbatim>\<open>class C: pass\<close>; the predicate
  \<^verbatim>\<open>lambda obj: isinstance(obj, A)\<close> of the docstring; a predicate that raises
  (\<^verbatim>\<open>lambda obj: obj.missing\<close>); a callable object that is false in a condition
  (its class defines \<^verbatim>\<open>__call__\<close> as the \<^verbatim>\<open>isinstance\<close> test and \<^verbatim>\<open>__bool__\<close>
  as \<^verbatim>\<open>False\<close>); and a predicate returning a non-empty string
  (\<^verbatim>\<open>lambda obj: "yes"\<close>).
\<close>

definition A_cls :: pyclass where
  "A_cls = PyClass 10 ''A'' [object_cls]"

definition B_cls :: pyclass where
  "B_cls = PyClass 11 ''B'' [A_cls]"

definition C_cls :: pyclass where
  "C_cls = PyClass 12 ''C'' [object_cls]"

definition isinstance_A :: pypred where
  "isinstance_A = PCallable True (\<lambda>obj. Inr (PyBool (isinstance obj A_cls)))"

definition raising_predicate :: pypred where
  "raising_predicate = PCallable True (\<lambda>obj. Inl (Raised ''AttributeError''))"

definition falsy_callable :: pypred where
  "falsy_callable = PCallable False (\<lambda>obj. Inr (PyBool (isinstance obj A_cls)))"

definition says_yes :: pypred where
  "says_yes = PCallable True (\<lambda>obj. Inr (PyStr ''yes''))"

subsection \<open>Example registries and a client\<close>

text \<open>
  The registry after \<^verbatim>\<open>@register_serializable(package="Example") class A\<close>; after
  registering \<^verbatim>\<open>B\<close> with the \<^verbatim>\<open>isinstance\<close> predicate on top of it (the concrete
  scenario of the specification); after registering \<^verbatim>\<open>C\<close> without a predicate on top of
  \<^verbatim>\<open>A\<close>; and a client whose calls succeed, fail and resolve in turn.
\<close>

definition registry_A :: registry where
  "registry_A = snd (register ''Example'' None PNone (PyType A_cls) empty_registry)"

definition registry_AB :: registry where
  "registry_AB = snd (register ''Example'' None isinstance_A (PyType B_cls) registry_A)"

definition registry_AC :: registry where
  "registry_AC = snd (register ''Example'' None PNone (PyType C_cls) registry_A)"

definition example_calls :: "op list" where
  "example_calls =
     [Register ''Example'' None PNone (PyType A_cls),
      Register ''Example'' (Some ''A'') isinstance_A (PyType B_cls),
      GetName (PyInstance A_cls 0),
      Register ''Example'' (Some ''B'') (PNonCallable True) (PyType B_cls),
      Register ''Example'' None PNone (PyInt 3),
      GetClass ''Example.Missing'',
      Register ''Example'' None says_yes (PyType C_cls)]"

text \<open>
  A world around the registry of the concrete scenario, and two interpreters that
  differ from the built-in one in one place each: a predicate whose body registers
  \<^verbatim>\<open>C\<close> (and ignores a failure of that registration) before it returns, and a
  predicate result whose \<^verbatim>\<open>__bool__\<close> raises.
\<close>

definition world_AB :: "unit world" where
  "world_AB = \<lparr>globals = registry_AB, heap = ()\<rparr>"

definition registering_code :: "unit usercode" where
  "registering_code =
     builtin_code
       \<lparr>pred_call := (\<lambda>predicate obj w.
          (call predicate obj,
           w\<lparr>globals := snd (register ''Example'' None PNone (PyType C_cls) (globals w))\<rparr>))\<rparr>"

definition raising_truth_code :: "unit usercode" where
  "raising_truth_code =
     builtin_code\<lparr>result_bool := (\<lambda>r w. (Inl (Raised ''RuntimeError''), w))\<rparr>"

section \<open>Basic facts\<close>

subsection \<open>A strict subclass is another class\<close>

lemma issubclass_size: "issubclass c d \<Longrightarrow> size d \<le> size c"
proof (induction c d rule: issubclass.induct)
  case (1 i n bs d)
  show ?case
  proof (cases "PyClass i n bs = d")
    case True
    then show ?thesis by simp
  next
    case False
    with "1.prems" obtain b where b: "b \<in> set bs" "issubclass b d" by auto
    from "1.IH" [OF b] have "size d \<le> size b" .
    moreover from b(1) have "size b \<le> size_list size bs"
      by (simp add: size_list_estimation')
    ultimately show ?thesis by simp
  qed
qed

lemma proper_subclass_neq: "proper_subclass c d \<Longrightarrow> c \<noteq> d"
proof
  assume p: "proper_subclass c d" and e: "c = d"
  from p obtain b where b: "b \<in> set (class_bases c)" "issubclass b d"
    by (auto simp: proper_subclass_def)
  from b(2) have "size d \<le> size b" by (rule issubclass_size)
  moreover from b(1) have "size b < size c"
    by (cases c) (simp add: size_list_estimation' less_Suc_eq_le)
  ultimately show False using e by simp
qed

subsection \<open>What one call does to the state\<close>

lemma register_Inl: "register package name predicate arg st = (Inl e, st') \<Longrightarrow> st' = st"
  by (auto simp: register_def register_serializable_def decorator_def Let_def
      split: if_splits option.splits prod.splits)

lemma register_Inr:
  assumes "register package name predicate arg st = (Inr v, st')"
  shows "isclass arg \<and> v = arg \<and> (is_None predicate \<or> callable predicate) \<and>
    CLASS_REGISTRY st (package @ ''.'' @ (case name of Some n \<Rightarrow> n | None \<Rightarrow> dunder_name arg)) = None \<and>
    CLASS_REGISTRY st' = (CLASS_REGISTRY st)
      (package @ ''.'' @ (case name of Some n \<Rightarrow> n | None \<Rightarrow> dunder_name arg) \<mapsto> (predicate, arg)) \<and>
    REGISTERED_NAMES st' = REGISTERED_NAMES st @
      [package @ ''.'' @ (case name of Some n \<Rightarrow> n | None \<Rightarrow> dunder_name arg)]"
  using assms
  by (auto simp: register_def register_serializable_def decorator_def Let_def
      split: if_splits option.splits prod.splits)

lemma exec_names:
  "exec c st = (r, st') \<Longrightarrow> REGISTERED_NAMES st' = REGISTERED_NAMES st @ successes [c] [r]"
  apply (cases c; cases r)
  apply (auto simp: get_registered_name_def get_registered_class_def
        dest: register_Inl dest!: register_Inr split: sum.splits exn.splits)
  done

lemma exec_dom:
  "exec c st = (r, st') \<Longrightarrow>
     dom (CLASS_REGISTRY st') = dom (CLASS_REGISTRY st) \<union> set (successes [c] [r])"
  apply (cases c; cases r)
  apply (auto simp: get_registered_name_def get_registered_class_def
        dest: register_Inl dest!: register_Inr split: sum.splits exn.splits)
  done

lemma exec_fresh:
  "exec c st = (r, st') \<Longrightarrow> set (successes [c] [r]) \<inter> dom (CLASS_REGISTRY st) = {}"
  apply (cases c; cases r)
  apply (auto simp: get_registered_name_def get_registered_class_def
        dest: register_Inl dest!: register_Inr split: sum.splits exn.splits)
  done

lemma exec_entry_kept:
  "exec c st = (r, st') \<Longrightarrow> CLASS_REGISTRY st n = Some e \<Longrightarrow> CLASS_REGISTRY st' n = Some e"
  apply (cases c; cases r)
  apply (auto simp: get_registered_name_def get_registered_class_def
        dest: register_Inl dest!: register_Inr split: sum.splits exn.splits)
  done

lemma successes_Cons:
  "successes (c # cs) (r # rs) = successes [c] [r] @ successes cs rs"
  by (cases c; cases r) simp_all

lemma exec_I1: "I1 st \<Longrightarrow> I1 (snd (exec c st))"
proof -
  assume inv: "I1 st"
  obtain r st' where ex: "exec c st = (r, st')" by (cases "exec c st")
  have len: "length (successes [c] [r]) \<le> 1" by (cases c; cases r) simp_all
  then have "distinct (successes [c] [r])" by (cases "successes [c] [r]") auto
  with inv exec_names [OF ex] exec_dom [OF ex] exec_fresh [OF ex] show ?thesis
    by (auto simp: I1_def ex)
qed

subsection \<open>Sequences of calls\<close>

lemma run_names:
  "run cs st = (rs, st') \<Longrightarrow> REGISTERED_NAMES st' = REGISTERED_NAMES st @ successes cs rs"
proof (induction cs arbitrary: st rs)
  case Nil
  then show ?case by simp
next
  case (Cons c cs)
  obtain r st1 where ex: "exec c st = (r, st1)" by (cases "exec c st")
  obtain rs1 where rn: "run cs st1 = (rs1, st')" and rs: "rs = r # rs1"
    using Cons.prems ex by (auto split: prod.splits)
  from Cons.IH [OF rn] exec_names [OF ex] show ?case
    by (simp add: rs successes_Cons [of c cs r rs1])
qed

lemma run_dom:
  "run cs st = (rs, st') \<Longrightarrow>
     dom (CLASS_REGISTRY st') = dom (CLASS_REGISTRY st) \<union> set (successes cs rs)"
proof (induction cs arbitrary: st rs)
  case Nil
  then show ?case by simp
next
  case (Cons c cs)
  obtain r st1 where ex: "exec c st = (r, st1)" by (cases "exec c st")
  obtain rs1 where rn: "run cs st1 = (rs1, st')" and rs: "rs = r # rs1"
    using Cons.prems ex by (auto split: prod.splits)
  from Cons.IH [OF rn] exec_dom [OF ex] show ?case
    by (simp add: rs successes_Cons [of c cs r rs1] Un_assoc)
qed

lemma snd_run_Cons: "snd (run (c # cs) st) = snd (run cs (snd (exec c st)))"
  by (simp split: prod.splits)

lemma run_I1: "I1 st \<Longrightarrow> I1 (snd (run cs st))"
proof (induction cs arbitrary: st)
  case Nil
  then show ?case by simp
next
  case (Cons c cs)
  from Cons.IH [OF exec_I1 [OF Cons.prems, of c]] show ?case
    by (simp only: snd_run_Cons)
qed

lemma run_entry_kept:
  "CLASS_REGISTRY st n = Some e \<Longrightarrow> CLASS_REGISTRY (snd (run cs st)) n = Some e"
proof (induction cs arbitrary: st)
  case Nil
  then show ?case by simp
next
  case (Cons c cs)
  obtain r st1 where ex: "exec c st = (r, st1)" by (cases "exec c st")
  from Cons.IH [OF exec_entry_kept [OF ex Cons.prems]] show ?case
    by (simp only: snd_run_Cons ex snd_conv)
qed

lemma I1_empty: "I1 empty_registry"
  by (simp add: I1_def empty_registry_def)

subsection \<open>The reverse scan\<close>

lemma scan_step:
  "reg name = Some (predicate, cls) \<Longrightarrow>
     scan reg obj (name # names) =
       (case match_rule predicate cls obj of
          Inl e \<Rightarrow> Inl e
        | Inr b \<Rightarrow> if b then Inr (PyStr name) else scan reg obj names)"
  by (simp add: dict_getitem_def match_rule_def split: sum.splits)

lemma scan_skip:
  "\<forall>m \<in> set ms. \<exists>p c. reg m = Some (p, c) \<and> match_rule p c obj = Inr False \<Longrightarrow>
     scan reg obj (ms @ ns) = scan reg obj ns"
proof (induction ms)
  case Nil
  then show ?case by simp
next
  case (Cons m ms)
  from Cons.prems obtain p c where pc: "reg m = Some (p, c)" "match_rule p c obj = Inr False"
    by auto
  from Cons have "scan reg obj (ms @ ns) = scan reg obj ns" by simp
  with scan_step [of reg m p c obj "ms @ ns", OF pc(1)] pc(2) show ?case by simp
qed

lemma scan_raises:
  "set ns \<subseteq> dom reg \<Longrightarrow> scan reg obj ns = Inl e \<Longrightarrow>
     \<exists>m \<in> set ns. \<exists>p c. reg m = Some (p, c) \<and> pred_truthy p \<and> call p obj = Inl e"
proof (induction ns)
  case Nil
  then show ?case by simp
next
  case (Cons n ns)
  from Cons.prems(1) obtain p c where pc: "reg n = Some (p, c)" by auto
  show ?case
  proof (cases "match_rule p c obj")
    case (Inl e')
    with scan_step [of reg n p c obj ns, OF pc] Cons.prems(2) have "e' = e" by simp
    with Inl have "pred_truthy p \<and> call p obj = Inl e"
      by (auto simp: match_rule_def split: if_splits sum.splits)
    with pc show ?thesis by auto
  next
    case (Inr b)
    with scan_step [of reg n p c obj ns, OF pc] Cons.prems(2) have "scan reg obj ns = Inl e"
      by (auto split: if_splits)
    with Cons.IH Cons.prems(1) show ?thesis by auto
  qed
qed

lemma scan_returns:
  "scan reg obj ns = Inr v \<Longrightarrow> v = PyNone \<or> (\<exists>n \<in> set ns. v = PyStr n)"
  by (induction ns) (auto simp: dict_getitem_def split: sum.splits if_splits option.splits)

subsection \<open>The loop with user code\<close>

lemma first_if_raises:
  "fst (first_if uc p cls obj w) = Inl e \<longleftrightarrow>
     fst (pred_bool uc p w) = Inl e \<or>
     (\<exists>w1. pred_bool uc p w = (Inr False, w1) \<and> fst (type_eq uc obj cls w1) = Inl e)"
  by (cases "pred_bool uc p w") (auto simp: first_if_def split: sum.splits)

lemma second_if_raises:
  "fst (second_if uc p obj w) = Inl e \<longleftrightarrow>
     fst (pred_bool uc p w) = Inl e \<or>
     (\<exists>w1. pred_bool uc p w = (Inr True, w1) \<and>
        (fst (pred_call uc p obj w1) = Inl e \<or>
         (\<exists>r w2. pred_call uc p obj w1 = (Inr r, w2) \<and> fst (result_bool uc r w2) = Inl e)))"
  by (cases "pred_bool uc p w"; cases "pred_call uc p obj (snd (pred_bool uc p w))")
    (auto simp: second_if_def split: sum.splits)

lemma first_if_keeps:
  assumes pb: "\<And>p w. P w \<Longrightarrow> P (snd (pred_bool uc p w))"
    and te: "\<And>a b w. P w \<Longrightarrow> P (snd (type_eq uc a b w))"
    and w: "P w"
  shows "P (snd (first_if uc predicate cls obj w))"
proof -
  obtain o1 w1 where a1: "pred_bool uc predicate w = (o1, w1)" by (cases "pred_bool uc predicate w")
  from pb [OF w, of predicate] a1 have p1: "P w1" by simp
  from p1 te [OF p1, of obj cls] show ?thesis
    by (auto simp: first_if_def a1 split: sum.splits)
qed

lemma second_if_keeps:
  assumes pb: "\<And>p w. P w \<Longrightarrow> P (snd (pred_bool uc p w))"
    and pc: "\<And>p a w. P w \<Longrightarrow> P (snd (pred_call uc p a w))"
    and rb: "\<And>r w. P w \<Longrightarrow> P (snd (result_bool uc r w))"
    and w: "P w"
  shows "P (snd (second_if uc predicate obj w))"
proof -
  obtain o1 w1 where a1: "pred_bool uc predicate w = (o1, w1)" by (cases "pred_bool uc predicate w")
  from pb [OF w, of predicate] a1 have p1: "P w1" by simp
  obtain o2 w2 where a2: "pred_call uc predicate obj w1 = (o2, w2)"
    by (cases "pred_call uc predicate obj w1")
  from pc [OF p1, of predicate obj] a2 have p2: "P w2" by simp
  from p1 p2 rb [OF p2] show ?thesis
    by (auto simp: second_if_def a1 a2 split: sum.splits)
qed

lemma scan_in_keeps:
  assumes pb: "\<And>p w. P w \<Longrightarrow> P (snd (pred_bool uc p w))"
    and te: "\<And>a b w. P w \<Longrightarrow> P (snd (type_eq uc a b w))"
    and pc: "\<And>p a w. P w \<Longrightarrow> P (snd (pred_call uc p a w))"
    and rb: "\<And>r w. P w \<Longrightarrow> P (snd (result_bool uc r w))"
  shows "P w \<Longrightarrow> P (snd (scan_in uc obj k w))"
proof (induction k arbitrary: w)
  case 0
  then show ?case by simp
next
  case (Suc k)
  show ?case
  proof (cases "k < length (REGISTERED_NAMES (globals w))")
    case False
    with Suc.prems show ?thesis by simp
  next
    case True
    show ?thesis
    proof (cases "CLASS_REGISTRY (globals w) (REGISTERED_NAMES (globals w) ! k)")
      case None
      with True Suc.prems show ?thesis by (simp add: dict_getitem_def)
    next
      case (Some entry)
      obtain p c where entry: "entry = (p, c)" by (cases entry)
      obtain o1 w1 where f: "first_if uc p c obj w = (o1, w1)" by (cases "first_if uc p c obj w")
      from first_if_keeps [of P uc w p c obj, OF pb te Suc.prems] f have p1: "P w1" by simp
      obtain o2 w2 where g: "second_if uc p obj w1 = (o2, w2)" by (cases "second_if uc p obj w1")
      from second_if_keeps [of P uc w1 p obj, OF pb pc rb p1] g have p2: "P w2" by simp
      from Suc.IH [OF p2] p1 p2 True Some entry f g show ?thesis
        by (auto simp: dict_getitem_def split: sum.splits)
    qed
  qed
qed

lemma leaves_globals_keeps:
  assumes q: "leaves_globals uc"
  shows "globals (snd (first_if uc p c obj w)) = globals w"
    and "globals (snd (second_if uc p obj w)) = globals w"
    and "globals (snd (scan_in uc obj k w)) = globals w"
proof -
  from q have pb: "\<And>p w'. globals w' = globals w \<Longrightarrow> globals (snd (pred_bool uc p w')) = globals w"
    and te: "\<And>a b w'. globals w' = globals w \<Longrightarrow> globals (snd (type_eq uc a b w')) = globals w"
    and pc: "\<And>p a w'. globals w' = globals w \<Longrightarrow> globals (snd (pred_call uc p a w')) = globals w"
    and rb: "\<And>r w'. globals w' = globals w \<Longrightarrow> globals (snd (result_bool uc r w')) = globals w"
    by (simp_all add: leaves_globals_def)
  show "globals (snd (first_if uc p c obj w)) = globals w"
    by (rule first_if_keeps [of "\<lambda>w'. globals w' = globals w", OF pb te]) simp_all
  show "globals (snd (second_if uc p obj w)) = globals w"
    by (rule second_if_keeps [of "\<lambda>w'. globals w' = globals w", OF pb pc rb]) simp_all
  show "globals (snd (scan_in uc obj k w)) = globals w"
    by (rule scan_in_keeps [of "\<lambda>w'. globals w' = globals w", OF pb te pc rb]) simp_all
qed

lemma scan_in_raises:
  assumes q: "leaves_globals uc" and sub: "set (REGISTERED_NAMES g) \<subseteq> dom (CLASS_REGISTRY g)"
  shows "globals w = g \<Longrightarrow> fst (scan_in uc obj k w) = Inl e \<Longrightarrow>
    \<exists>n p cls w'. n \<in> set (REGISTERED_NAMES g) \<and> CLASS_REGISTRY g n = Some (p, cls) \<and>
      globals w' = g \<and>
      (fst (first_if uc p cls obj w') = Inl e \<or> fst (second_if uc p obj w') = Inl e)"
proof (induction k arbitrary: w)
  case 0
  then show ?case by simp
next
  case (Suc k)
  show ?case
  proof (cases "k < length (REGISTERED_NAMES g)")
    case False
    with Suc.prems show ?thesis by simp
  next
    case True
    define n where "n = REGISTERED_NAMES g ! k"
    from True have mem: "n \<in> set (REGISTERED_NAMES g)" by (simp add: n_def)
    with sub obtain p c where entry: "CLASS_REGISTRY g n = Some (p, c)" by auto
    obtain o1 w1 where f: "first_if uc p c obj w = (o1, w1)" by (cases "first_if uc p c obj w")
    from leaves_globals_keeps(1) [OF q, of p c obj w] f Suc.prems(1) have g1: "globals w1 = g" by simp
    obtain o2 w2 where s: "second_if uc p obj w1 = (o2, w2)" by (cases "second_if uc p obj w1")
    from leaves_globals_keeps(2) [OF q, of p obj w1] s g1 have g2: "globals w2 = g" by simp
    show ?thesis
    proof (cases o1)
      case (Inl e1)
      with Suc.prems True entry f have "e1 = e" by (simp add: n_def dict_getitem_def)
      with Inl f have "fst (first_if uc p c obj w) = Inl e" by simp
      with mem entry Suc.prems(1) show ?thesis by blast
    next
      case b1: (Inr b1)
      show ?thesis
      proof (cases b1)
        case True
        with b1 Suc.prems \<open>k < length (REGISTERED_NAMES g)\<close> entry f show ?thesis
          by (simp add: n_def dict_getitem_def)
      next
        case nb1: False
        show ?thesis
        proof (cases o2)
          case (Inl e2)
          with Suc.prems True entry f s b1 nb1 have "e2 = e" by (simp add: n_def dict_getitem_def)
          with Inl s have "fst (second_if uc p obj w1) = Inl e" by simp
          with mem entry g1 show ?thesis by blast
        next
          case b2: (Inr b2)
          show ?thesis
          proof (cases b2)
            case True
            with b2 b1 nb1 Suc.prems \<open>k < length (REGISTERED_NAMES g)\<close> entry f s show ?thesis
              by (simp add: n_def dict_getitem_def)
          next
            case False
            with b2 b1 nb1 Suc.prems \<open>k < length (REGISTERED_NAMES g)\<close> entry f s
            have "fst (scan_in uc obj k w2) = Inl e" by (simp add: n_def dict_getitem_def)
            from Suc.IH [OF g2 this] show ?thesis .
          qed
        qed
      qed
    qed
  qed
qed

lemma scan_in_none:
  assumes q: "leaves_globals uc" and sub: "set (REGISTERED_NAMES g) \<subseteq> dom (CLASS_REGISTRY g)"
    and quiet: "\<And>n p cls w'. n \<in> set (REGISTERED_NAMES g) \<Longrightarrow> CLASS_REGISTRY g n = Some (p, cls) \<Longrightarrow>
      globals w' = g \<Longrightarrow>
      fst (first_if uc p cls obj w') = Inr False \<and> fst (second_if uc p obj w') = Inr False"
  shows "globals w = g \<Longrightarrow> fst (scan_in uc obj k w) = Inr PyNone"
proof (induction k arbitrary: w)
  case 0
  then show ?case by simp
next
  case (Suc k)
  show ?case
  proof (cases "k < length (REGISTERED_NAMES g)")
    case False
    with Suc.prems show ?thesis by simp
  next
    case True
    define n where "n = REGISTERED_NAMES g ! k"
    from True have mem: "n \<in> set (REGISTERED_NAMES g)" by (simp add: n_def)
    with sub obtain p c where entry: "CLASS_REGISTRY g n = Some (p, c)" by auto
    obtain o1 w1 where f: "first_if uc p c obj w = (o1, w1)" by (cases "first_if uc p c obj w")
    from leaves_globals_keeps(1) [OF q, of p c obj w] f Suc.prems(1) have g1: "globals w1 = g" by simp
    obtain o2 w2 where s: "second_if uc p obj w1 = (o2, w2)" by (cases "second_if uc p obj w1")
    from leaves_globals_keeps(2) [OF q, of p obj w1] s g1 have g2: "globals w2 = g" by simp
    from quiet [OF mem entry Suc.prems(1)] f have o1: "o1 = Inr False" by simp
    from quiet [OF mem entry g1] s have o2: "o2 = Inr False" by simp
    from Suc.IH [OF g2] Suc.prems True entry f s o1 o2 show ?thesis
      by (simp add: n_def dict_getitem_def)
  qed
qed

lemma scan_in_step:
  assumes "index < length (REGISTERED_NAMES (globals w))"
    and "CLASS_REGISTRY (globals w) (REGISTERED_NAMES (globals w) ! index) = Some (p, cls)"
  shows "first_if uc p cls obj w = (Inl e, w1) \<Longrightarrow> scan_in uc obj (Suc index) w = (Inl e, w1)"
    and "first_if uc p cls obj w = (Inr False, w1) \<Longrightarrow> second_if uc p obj w1 = (Inl e, w2) \<Longrightarrow>
      scan_in uc obj (Suc index) w = (Inl e, w2)"
    and "first_if uc p cls obj w = (Inr False, w1) \<Longrightarrow> second_if uc p obj w1 = (Inr False, w2) \<Longrightarrow>
      scan_in uc obj (Suc index) w = scan_in uc obj index w2"
  using assms by (simp_all add: dict_getitem_def)

lemma builtin_quiet: "leaves_globals builtin_code"
  by (simp add: leaves_globals_def builtin_code_def)

lemma scan_in_builtin:
  "k \<le> length (REGISTERED_NAMES (globals w)) \<Longrightarrow>
     scan_in builtin_code obj k w =
       (scan (CLASS_REGISTRY (globals w)) obj (rev (take k (REGISTERED_NAMES (globals w)))), w)"
proof (induction k)
  case 0
  then show ?case by simp
next
  case (Suc k)
  then have lt: "k < length (REGISTERED_NAMES (globals w))" by simp
  then have tk: "rev (take (Suc k) (REGISTERED_NAMES (globals w))) =
      REGISTERED_NAMES (globals w) ! k # rev (take k (REGISTERED_NAMES (globals w)))"
    by (simp add: take_Suc_conv_app_nth)
  from Suc lt show ?case
    by (auto simp: tk dict_getitem_def first_if_def second_if_def builtin_code_def
        split: option.splits sum.splits)
qed

lemma get_registered_name_in_builtin:
  "get_registered_name_in builtin_code obj w =
     (fst (get_registered_name obj (globals w)), w)"
  by (simp add: get_registered_name_in_def get_registered_name_def scan_in_builtin)


subsection \<open>The example registries, evaluated\<close>

lemma registry_A_eq:
  "registry_A =
     \<lparr>CLASS_REGISTRY = [''Example.A'' \<mapsto> (PNone, PyType A_cls)],
      REGISTERED_NAMES = [''Example.A'']\<rparr>"
  by (simp add: registry_A_def register_def register_serializable_def decorator_def
      empty_registry_def A_cls_def Let_def)

lemma registry_AB_eq:
  "registry_AB =
     \<lparr>CLASS_REGISTRY = [''Example.A'' \<mapsto> (PNone, PyType A_cls),
                        ''Example.B'' \<mapsto> (isinstance_A, PyType B_cls)],
      REGISTERED_NAMES = [''Example.A'', ''Example.B'']\<rparr>"
  by (simp add: registry_AB_def registry_A_eq register_def register_serializable_def
      decorator_def isinstance_A_def B_cls_def Let_def)

lemma registry_AC_eq:
  "registry_AC =
     \<lparr>CLASS_REGISTRY = [''Example.A'' \<mapsto> (PNone, PyType A_cls),
                        ''Example.C'' \<mapsto> (PNone, PyType C_cls)],
      REGISTERED_NAMES = [''Example.A'', ''Example.C'']\<rparr>"
  by (simp add: registry_AC_def registry_A_eq register_def register_serializable_def
      decorator_def C_cls_def Let_def)

lemma register_A: "register ''Example'' None PNone (PyType A_cls) empty_registry = (Inr (PyType A_cls), registry_A)"
  by (simp add: registry_A_eq register_def register_serializable_def decorator_def
      empty_registry_def A_cls_def Let_def)


lemma register_C: "register ''Example'' None PNone (PyType C_cls) registry_A = (Inr (PyType C_cls), registry_AC)"
  by (simp add: registry_AC_eq registry_A_eq register_def register_serializable_def
      decorator_def C_cls_def Let_def)

lemma A_neq_C: "A_cls \<noteq> C_cls"
  by (simp add: A_cls_def C_cls_def)

lemma call_isinstance_A: "call isinstance_A (PyInstance A_cls 0) = Inr (PyBool True)"
  by (simp add: isinstance_A_def isinstance_def A_cls_def)

lemma I1_registry_AB: "I1 registry_AB"
  by (auto simp: I1_def registry_AB_eq)

lemma raising_truth_quiet: "leaves_globals raising_truth_code"
  by (simp add: leaves_globals_def raising_truth_code_def builtin_code_def)

section \<open>The claims\<close>




text \<open>
  C2. Exact-type default match. An entry registered without a predicate is matched by
  an object only when the object's exact runtime type is the registered class: the scan
  returns the entry's name when \<open>type_of obj = A\<close> and moves on otherwise. With that
  entry alone in the registry, an instance of \<open>A\<close> resolves to the entry's name, and an
  object of any other type, an instance of a strict subclass of \<open>A\<close> among them,
  resolves to \<^verbatim>\<open>None\<close>.
\<close>

theorem exact_type_default_match:
  "fst (register package name PNone (PyType A) empty_registry) = Inr (PyType A) \<and>
   (let st = snd (register package name PNone (PyType A) empty_registry);
        N = package @ ''.'' @ (case name of Some n \<Rightarrow> n | None \<Rightarrow> class_name A)
    in (type_of obj = A \<longrightarrow> fst (get_registered_name obj st) = Inr (PyStr N)) \<and>
       (type_of obj \<noteq> A \<longrightarrow> fst (get_registered_name obj st) = Inr PyNone) \<and>
       (proper_subclass (type_of obj) A \<longrightarrow> fst (get_registered_name obj st) = Inr PyNone)) \<and>
   (\<forall>reg m names. reg m = Some (PNone, PyType A) \<longrightarrow>
      scan reg obj (m # names) =
        (if type_of obj = A then Inr (PyStr m) else scan reg obj names))"
proof -
  have reg: "register package name PNone (PyType A) empty_registry =
    (Inr (PyType A),
     \<lparr>CLASS_REGISTRY =
        [package @ ''.'' @ (case name of Some n \<Rightarrow> n | None \<Rightarrow> class_name A) \<mapsto> (PNone, PyType A)],
      REGISTERED_NAMES = [package @ ''.'' @ (case name of Some n \<Rightarrow> n | None \<Rightarrow> class_name A)]\<rparr>)"
    by (cases name)
      (simp_all add: register_def register_serializable_def decorator_def empty_registry_def Let_def)
  have sub: "proper_subclass (type_of obj) A \<Longrightarrow> type_of obj \<noteq> A"
    by (rule proper_subclass_neq)
  have step: "\<And>reg m names. reg m = Some (PNone, PyType A) \<Longrightarrow>
      scan reg obj (m # names) =
        (if type_of obj = A then Inr (PyStr m) else scan reg obj names)"
    by (simp add: dict_getitem_def)
  show ?thesis
    using sub step by (simp add: reg get_registered_name_def dict_getitem_def Let_def)
qed

theorem exact_type_default_match_witness:
  "proper_subclass (type_of (PyInstance B_cls 0)) A_cls \<and>
   fst (get_registered_name (PyInstance B_cls 0)
     (snd (register ''Pkg'' None PNone (PyType A_cls) empty_registry))) = Inr PyNone \<and>
   fst (get_registered_name (PyInstance A_cls 0)
     (snd (register ''Pkg'' None PNone (PyType A_cls) empty_registry))) = Inr (PyStr ''Pkg.A'')"
proof -
  have sub: "proper_subclass (type_of (PyInstance B_cls 0)) A_cls"
    by (simp add: proper_subclass_def B_cls_def A_cls_def)
  have ty: "type_of (PyInstance A_cls 0) = A_cls" by simp
  have nm: "class_name A_cls = ''A''" by (simp add: A_cls_def)
  from exact_type_default_match [of "''Pkg''" None A_cls "PyInstance B_cls 0"] sub
    exact_type_default_match [of "''Pkg''" None A_cls "PyInstance A_cls 0"] ty nm
  show ?thesis by (simp add: Let_def)
qed

text \<open>
  C3. Uniqueness. When the joined name is already a key of \<^verbatim>\<open>_CLASS_REGISTRY\<close>, the
  decorator applied to a class raises the \<^verbatim>\<open>ValueError\<close> "has already been
  registered to", which carries the name and the stored predicate and class, whatever
  the new predicate and class are; so does the whole registration for every predicate
  that \<^verbatim>\<open>register_serializable\<close> accepts, and for every predicate it ends in a
  \<^verbatim>\<open>ValueError\<close>. The state, that is the stored entries and the order list, is left
  as it was.
\<close>

theorem duplicate_registration_rejected:
  assumes "CLASS_REGISTRY st (package @ ''.'' @ (case name of Some n \<Rightarrow> n | None \<Rightarrow> class_name T)) = Some (p, c)"
  shows "decorator package name predicate (PyType T) st =
      (Inl (ValueError (AlreadyRegistered
         (package @ ''.'' @ (case name of Some n \<Rightarrow> n | None \<Rightarrow> class_name T)) p c)), st) \<and>
    (is_None predicate \<or> callable predicate \<longrightarrow>
      register package name predicate (PyType T) st =
        (Inl (ValueError (AlreadyRegistered
           (package @ ''.'' @ (case name of Some n \<Rightarrow> n | None \<Rightarrow> class_name T)) p c)), st)) \<and>
    (\<exists>m. register package name predicate (PyType T) st = (Inl (ValueError m), st))"
  using assms
  by (cases name)
    (auto simp: register_def register_serializable_def decorator_def)

theorem duplicate_registration_rejected_witness:
  "CLASS_REGISTRY registry_A ''Example.A'' = Some (PNone, PyType A_cls) \<and>
   register ''Example'' (Some ''A'') isinstance_A (PyType B_cls) registry_A =
     (Inl (ValueError (AlreadyRegistered ''Example.A'' PNone (PyType A_cls))), registry_A)"
proof -
  have h: "CLASS_REGISTRY registry_A (''Example'' @ ''.'' @ (case Some ''A'' of Some n \<Rightarrow> n | None \<Rightarrow> class_name B_cls)) =
      Some (PNone, PyType A_cls)"
    by (simp add: registry_A_eq)
  have c: "callable isinstance_A" by (simp add: isinstance_A_def)
  from duplicate_registration_rejected [OF h, of isinstance_A] c h show ?thesis by simp
qed

text \<open>
  C4. Invariant I1. After any sequence of calls from the empty registry, the order
  list is exactly the list of the names of the registrations that succeeded, in call
  order, the keys of the dict are exactly the set of these names, and no name occurs
  twice in the list. Every single call, a registration that succeeds or fails or one
  of the two resolve operations, takes a state where the list holds exactly the keys,
  each once, to such a state.
\<close>

theorem registration_order_invariant:
  "(case run ops empty_registry of (rs, st) \<Rightarrow>
      REGISTERED_NAMES st = successes ops rs \<and>
      dom (CLASS_REGISTRY st) = set (successes ops rs) \<and>
      distinct (REGISTERED_NAMES st)) \<and>
   (I1 st0 \<longrightarrow> I1 (snd (exec c st0)))"
proof -
  obtain rs st where rn: "run ops empty_registry = (rs, st)"
    by (cases "run ops empty_registry")
  from run_names [OF rn] have a: "REGISTERED_NAMES st = successes ops rs"
    by (simp add: empty_registry_def)
  from run_dom [OF rn] have b: "dom (CLASS_REGISTRY st) = set (successes ops rs)"
    by (simp add: empty_registry_def)
  from run_I1 [OF I1_empty, of ops] rn have c: "distinct (REGISTERED_NAMES st)"
    by (simp add: I1_def)
  from a b c exec_I1 show ?thesis by (simp add: rn)
qed

theorem registration_order_invariant_witness:
  "REGISTERED_NAMES (snd (run example_calls empty_registry)) = [''Example.A'', ''Example.C''] \<and>
   dom (CLASS_REGISTRY (snd (run example_calls empty_registry))) = {''Example.A'', ''Example.C''} \<and>
   I1 registry_A \<and>
   I1 (snd (exec (Register ''Example'' None isinstance_A (PyType B_cls)) registry_A)) \<and>
   I1 (snd (exec (Register ''Example'' (Some ''A'') isinstance_A (PyType B_cls)) registry_A)) \<and>
   I1 (snd (exec (GetName (PyInstance A_cls 0)) registry_A))"
proof -
  have inv: "I1 registry_A" by (simp add: I1_def registry_A_eq)
  have rs: "fst (run example_calls empty_registry) =
      [Inr (PyType A_cls),
       Inl (ValueError (AlreadyRegistered ''Example.A'' PNone (PyType A_cls))),
       Inr (PyStr ''Example.A''),
       Inl (ValueError MustBeCallable),
       Inl (ValueError (MustBeClass (PyInt 3))),
       Inr PyNone,
       Inr (PyType C_cls)]"
    by (simp add: example_calls_def empty_registry_def register_def register_serializable_def
        decorator_def get_registered_name_def get_registered_class_def dict_getitem_def
        A_cls_def B_cls_def C_cls_def isinstance_A_def says_yes_def Let_def)
  have sc: "successes example_calls (fst (run example_calls empty_registry)) =
      [''Example.A'', ''Example.C'']"
    by (simp add: rs) (simp add: example_calls_def A_cls_def C_cls_def)
  from registration_order_invariant [of example_calls registry_A
      "Register ''Example'' None isinstance_A (PyType B_cls)"]
    registration_order_invariant [of example_calls registry_A
      "Register ''Example'' (Some ''A'') isinstance_A (PyType B_cls)"]
    registration_order_invariant [of example_calls registry_A "GetName (PyInstance A_cls 0)"]
    inv sc
  show ?thesis by (auto split: prod.splits)
qed

text \<open>
  C5. Round trip. Once a name has been registered with class \<open>T\<close>, and whatever calls
  follow, \<^verbatim>\<open>get_registered_class\<close> of the name returns \<open>T\<close>. If the registration
  had no predicate, \<open>i\<close> is a direct instance of \<open>T\<close>, and the match rule of every
  entry registered later evaluates to no match on \<open>i\<close>, then
  \<^verbatim>\<open>get_registered_name(i)\<close> returns the name.
\<close>

theorem round_trip:
  assumes reg: "register package name predicate (PyType T) st = (Inr v, st1)"
    and later: "run ops st1 = (rs, st2)"
  shows "fst (get_registered_class
        (package @ ''.'' @ (case name of Some n \<Rightarrow> n | None \<Rightarrow> class_name T)) st2) = Inr (PyType T) \<and>
    (is_None predicate \<and> type_of i = T \<and>
     (\<forall>m p c. m \<in> set (successes ops rs) \<and> CLASS_REGISTRY st2 m = Some (p, c) \<longrightarrow>
         match_rule p c i = Inr False) \<longrightarrow>
     fst (get_registered_name i st2) =
       Inr (PyStr (package @ ''.'' @ (case name of Some n \<Rightarrow> n | None \<Rightarrow> class_name T))))"
proof -
  define N where "N = package @ ''.'' @ (case name of Some n \<Rightarrow> n | None \<Rightarrow> class_name T)"
  have k: "package @ ''.'' @ (case name of Some n \<Rightarrow> n | None \<Rightarrow> dunder_name (PyType T)) = N"
    by (cases name) (simp_all add: N_def)
  from register_Inr [OF reg] have e1: "CLASS_REGISTRY st1 N = Some (predicate, PyType T)"
    and n1: "REGISTERED_NAMES st1 = REGISTERED_NAMES st @ [N]"
    by (simp_all only: k) simp_all
  from run_entry_kept [OF e1, of ops] later
  have e2: "CLASS_REGISTRY st2 N = Some (predicate, PyType T)" by simp
  then have cls: "fst (get_registered_class N st2) = Inr (PyType T)"
    by (simp add: get_registered_class_def dict_getitem_def)
  have nm: "fst (get_registered_name i st2) = Inr (PyStr N)"
    if none: "is_None predicate" and ty: "type_of i = T"
      and quiet: "\<forall>m p c. m \<in> set (successes ops rs) \<and> CLASS_REGISTRY st2 m = Some (p, c) \<longrightarrow>
         match_rule p c i = Inr False"
  proof -
    from run_names [OF later] n1
    have names: "rev (REGISTERED_NAMES st2) = rev (successes ops rs) @ N # rev (REGISTERED_NAMES st)"
      by simp
    from run_dom [OF later] have "set (successes ops rs) \<subseteq> dom (CLASS_REGISTRY st2)" by simp
    with quiet have skip: "\<forall>m \<in> set (rev (successes ops rs)).
        \<exists>p c. CLASS_REGISTRY st2 m = Some (p, c) \<and> match_rule p c i = Inr False"
      by fastforce
    from none have "\<not> pred_truthy predicate" by (cases predicate) simp_all
    with ty have "match_rule predicate (PyType T) i = Inr True" by (simp add: match_rule_def)
    with scan_step [of "CLASS_REGISTRY st2" N predicate "PyType T" i "rev (REGISTERED_NAMES st)", OF e2]
    have "scan (CLASS_REGISTRY st2) i (N # rev (REGISTERED_NAMES st)) = Inr (PyStr N)" by simp
    with scan_skip [OF skip, of "N # rev (REGISTERED_NAMES st)"] names show ?thesis
      by (simp add: get_registered_name_def)
  qed
  from cls nm show ?thesis unfolding N_def by blast
qed

theorem round_trip_witness:
  "register ''Example'' None PNone (PyType A_cls) empty_registry = (Inr (PyType A_cls), registry_A) \<and>
   run [Register ''Example'' None PNone (PyType C_cls)] registry_A = ([Inr (PyType C_cls)], registry_AC) \<and>
   match_rule PNone (PyType C_cls) (PyInstance A_cls 0) = Inr False \<and>
   fst (get_registered_class ''Example.A'' registry_AC) = Inr (PyType A_cls) \<and>
   fst (get_registered_name (PyInstance A_cls 0) registry_AC) = Inr (PyStr ''Example.A'')"
proof -
  have later: "run [Register ''Example'' None PNone (PyType C_cls)] registry_A = ([Inr (PyType C_cls)], registry_AC)"
    by (simp add: register_C)
  have m: "match_rule PNone (PyType C_cls) (PyInstance A_cls 0) = Inr False"
    by (simp add: match_rule_def A_neq_C)
  have quiet: "\<forall>m p c. m \<in> set (successes [Register ''Example'' None PNone (PyType C_cls)] [Inr (PyType C_cls)]) \<and>
      CLASS_REGISTRY registry_AC m = Some (p, c) \<longrightarrow> match_rule p c (PyInstance A_cls 0) = Inr False"
    using m by (auto simp: registry_AC_eq C_cls_def)
  have nA: "class_name A_cls = ''A''" by (simp add: A_cls_def)
  from round_trip [OF register_A later, of "PyInstance A_cls 0"] quiet
  show ?thesis using register_A later m by (simp add: nA)
qed

text \<open>
  C6, as stated, fails: \<^verbatim>\<open>get_registered_name\<close> has no handler around the call of a
  stored predicate, so an exception raised by the predicate leaves
  \<^verbatim>\<open>get_registered_name\<close>. With the single registration
  \<^verbatim>\<open>register_serializable(package="Example", predicate=lambda obj: obj.missing)(A)\<close>
  the resolution of an instance of \<open>A\<close> raises.
\<close>

theorem resolve_never_raises_counterexample:
  "fst (get_registered_name (PyInstance A_cls 0)
     (snd (register ''Example'' None raising_predicate (PyType A_cls) empty_registry))) =
   Inl (Raised ''AttributeError'')"
  by (simp add: register_def register_serializable_def decorator_def empty_registry_def
      raising_predicate_def get_registered_name_def dict_getitem_def Let_def)

text \<open>
  C6, amended. \<^verbatim>\<open>get_registered_class\<close> never raises, and returns \<^verbatim>\<open>None\<close> for a
  name that is no key. \<^verbatim>\<open>get_registered_name\<close> has no handler around the user code
  it runs at an entry:
  \<^item> the first condition raises exactly when the truth test of the stored predicate
    raises, or answers false and the comparison \<^verbatim>\<open>type(obj) == cls\<close> raises;
  \<^item> the second condition raises exactly when the truth test of the stored predicate
    raises, or answers true and either the call \<^verbatim>\<open>predicate(obj)\<close> raises or the truth
    test of the value it returns raises;
  \<^item> at whatever entry the loop stands, an exception raised by the first condition, or
    by the second after the first was false, is at once the outcome of the loop, in the
    world the user code left; when both conditions are false the loop goes on to the
    entry before, in the world the user code left; and \<^verbatim>\<open>get_registered_name\<close> is the
    loop started at the last entry.
  As long as user code leaves the two globals unchanged and the order list holds exactly
  the keys, an exception that leaves \<^verbatim>\<open>get_registered_name\<close> was raised by one of the
  two conditions at a stored entry, in some world with these globals; and
  \<^verbatim>\<open>get_registered_name\<close> returns \<^verbatim>\<open>None\<close> when both conditions are false at
  every entry in every world with these globals.
\<close>

theorem resolve_raises_only_from_user_code:
  "(\<exists>v. fst (get_registered_class registered_name st) = Inr v) \<and>
   (CLASS_REGISTRY st registered_name = None \<longrightarrow>
      fst (get_registered_class registered_name st) = Inr PyNone) \<and>
   (fst (first_if uc p cls obj w) = Inl e \<longleftrightarrow>
      fst (pred_bool uc p w) = Inl e \<or>
      (\<exists>w1. pred_bool uc p w = (Inr False, w1) \<and> fst (type_eq uc obj cls w1) = Inl e)) \<and>
   (fst (second_if uc p obj w) = Inl e \<longleftrightarrow>
      fst (pred_bool uc p w) = Inl e \<or>
      (\<exists>w1. pred_bool uc p w = (Inr True, w1) \<and>
         (fst (pred_call uc p obj w1) = Inl e \<or>
          (\<exists>r w2. pred_call uc p obj w1 = (Inr r, w2) \<and> fst (result_bool uc r w2) = Inl e)))) \<and>
   (index < length (REGISTERED_NAMES (globals w)) \<and>
    CLASS_REGISTRY (globals w) (REGISTERED_NAMES (globals w) ! index) = Some (p, cls) \<longrightarrow>
      (\<forall>w1. first_if uc p cls obj w = (Inl e, w1) \<longrightarrow>
         scan_in uc obj (Suc index) w = (Inl e, w1)) \<and>
      (\<forall>w1 w2. first_if uc p cls obj w = (Inr False, w1) \<and> second_if uc p obj w1 = (Inl e, w2) \<longrightarrow>
         scan_in uc obj (Suc index) w = (Inl e, w2)) \<and>
      (\<forall>w1 w2. first_if uc p cls obj w = (Inr False, w1) \<and> second_if uc p obj w1 = (Inr False, w2) \<longrightarrow>
         scan_in uc obj (Suc index) w = scan_in uc obj index w2)) \<and>
   get_registered_name_in uc obj w = scan_in uc obj (length (REGISTERED_NAMES (globals w))) w \<and>
   (leaves_globals uc \<and> I1 (globals w) \<longrightarrow>
      (fst (get_registered_name_in uc obj w) = Inl e \<longrightarrow>
         (\<exists>n q c w'. n \<in> set (REGISTERED_NAMES (globals w)) \<and>
            CLASS_REGISTRY (globals w) n = Some (q, c) \<and> globals w' = globals w \<and>
            (fst (first_if uc q c obj w') = Inl e \<or> fst (second_if uc q obj w') = Inl e))) \<and>
      ((\<forall>n q c w'. n \<in> set (REGISTERED_NAMES (globals w)) \<and>
            CLASS_REGISTRY (globals w) n = Some (q, c) \<and> globals w' = globals w \<longrightarrow>
            fst (first_if uc q c obj w') = Inr False \<and> fst (second_if uc q obj w') = Inr False) \<longrightarrow>
         fst (get_registered_name_in uc obj w) = Inr PyNone))"
proof -
  have a: "\<exists>v. fst (get_registered_class registered_name st) = Inr v"
    by (cases "CLASS_REGISTRY st registered_name")
      (simp_all add: get_registered_class_def dict_getitem_def)
  have b: "CLASS_REGISTRY st registered_name = None \<longrightarrow>
      fst (get_registered_class registered_name st) = Inr PyNone"
    by (simp add: get_registered_class_def dict_getitem_def)
  note c = first_if_raises [of uc p cls obj w e]
  note d = second_if_raises [of uc p obj w e]
  have s: "(\<forall>w1. first_if uc p cls obj w = (Inl e, w1) \<longrightarrow>
         scan_in uc obj (Suc index) w = (Inl e, w1)) \<and>
      (\<forall>w1 w2. first_if uc p cls obj w = (Inr False, w1) \<and> second_if uc p obj w1 = (Inl e, w2) \<longrightarrow>
         scan_in uc obj (Suc index) w = (Inl e, w2)) \<and>
      (\<forall>w1 w2. first_if uc p cls obj w = (Inr False, w1) \<and> second_if uc p obj w1 = (Inr False, w2) \<longrightarrow>
         scan_in uc obj (Suc index) w = scan_in uc obj index w2)"
    if "index < length (REGISTERED_NAMES (globals w))"
      and "CLASS_REGISTRY (globals w) (REGISTERED_NAMES (globals w) ! index) = Some (p, cls)"
    using scan_in_step [OF that] by blast
  have g: "get_registered_name_in uc obj w =
      scan_in uc obj (length (REGISTERED_NAMES (globals w))) w"
    by (simp add: get_registered_name_in_def)
  have sub: "set (REGISTERED_NAMES (globals w)) \<subseteq> dom (CLASS_REGISTRY (globals w))"
    if "I1 (globals w)"
    using that by (simp add: I1_def)
  have only: "\<exists>n q c w'. n \<in> set (REGISTERED_NAMES (globals w)) \<and>
            CLASS_REGISTRY (globals w) n = Some (q, c) \<and> globals w' = globals w \<and>
            (fst (first_if uc q c obj w') = Inl e \<or> fst (second_if uc q obj w') = Inl e)"
    if q: "leaves_globals uc" and inv: "I1 (globals w)"
      and r: "fst (get_registered_name_in uc obj w) = Inl e"
    using scan_in_raises [where uc = uc and g = "globals w" and w = w and obj = obj
        and k = "length (REGISTERED_NAMES (globals w))" and e = e, OF q sub [OF inv] refl] r
    by (simp add: get_registered_name_in_def)
  have none: "fst (get_registered_name_in uc obj w) = Inr PyNone"
    if q: "leaves_globals uc" and inv: "I1 (globals w)"
      and quiet: "\<forall>n q c w'. n \<in> set (REGISTERED_NAMES (globals w)) \<and>
            CLASS_REGISTRY (globals w) n = Some (q, c) \<and> globals w' = globals w \<longrightarrow>
            fst (first_if uc q c obj w') = Inr False \<and> fst (second_if uc q obj w') = Inr False"
  proof -
    from quiet have "\<And>n q c w'. n \<in> set (REGISTERED_NAMES (globals w)) \<Longrightarrow>
        CLASS_REGISTRY (globals w) n = Some (q, c) \<Longrightarrow> globals w' = globals w \<Longrightarrow>
        fst (first_if uc q c obj w') = Inr False \<and> fst (second_if uc q obj w') = Inr False"
      by blast
    from scan_in_none [where uc = uc and g = "globals w" and w = w and obj = obj
        and k = "length (REGISTERED_NAMES (globals w))", OF q sub [OF inv] this refl]
    show ?thesis by (simp add: get_registered_name_in_def)
  qed
  from a b c d s g only none show ?thesis by blast
qed

theorem resolve_raises_only_from_user_code_witness:
  "leaves_globals raising_truth_code \<and> leaves_globals (builtin_code :: unit usercode) \<and>
   I1 (globals world_AB) \<and>
   fst (get_registered_class ''Example.Missing'' registry_AB) = Inr PyNone \<and>
   call isinstance_A (PyInstance A_cls 0) = Inr (PyBool True) \<and>
   fst (get_registered_name_in raising_truth_code (PyInstance A_cls 0) world_AB) =
     Inl (Raised ''RuntimeError'') \<and>
   fst (get_registered_name_in builtin_code (PyInstance C_cls 0) world_AB) = Inr PyNone"
proof -
  have inv: "I1 (globals world_AB)" by (simp add: world_AB_def I1_registry_AB)
  have bq: "leaves_globals (builtin_code :: unit usercode)" by (rule builtin_quiet)
  have miss: "CLASS_REGISTRY registry_AB ''Example.Missing'' = None"
    by (simp add: registry_AB_eq)
  have len: "length (REGISTERED_NAMES (globals world_AB)) = Suc 1"
    by (simp add: world_AB_def registry_AB_eq)
  have idx: "1 < length (REGISTERED_NAMES (globals world_AB)) \<and>
      CLASS_REGISTRY (globals world_AB) (REGISTERED_NAMES (globals world_AB) ! 1) =
        Some (isinstance_A, PyType B_cls)"
    by (simp add: world_AB_def registry_AB_eq)
  have f: "first_if raising_truth_code isinstance_A (PyType B_cls) (PyInstance A_cls 0) world_AB =
      (Inr False, world_AB)"
    by (simp add: first_if_def raising_truth_code_def builtin_code_def isinstance_A_def)
  have s: "second_if raising_truth_code isinstance_A (PyInstance A_cls 0) world_AB =
      (Inl (Raised ''RuntimeError''), world_AB)"
    by (simp add: second_if_def raising_truth_code_def builtin_code_def isinstance_A_def)
  have quiet: "\<forall>n q c w'. n \<in> set (REGISTERED_NAMES (globals world_AB)) \<and>
      CLASS_REGISTRY (globals world_AB) n = Some (q, c) \<and> globals w' = globals world_AB \<longrightarrow>
      fst (first_if builtin_code q c (PyInstance C_cls 0) w') = Inr False \<and>
      fst (second_if builtin_code q (PyInstance C_cls 0) w') = Inr False"
    by (auto simp: world_AB_def registry_AB_eq first_if_def second_if_def builtin_code_def
        isinstance_A_def isinstance_def A_cls_def C_cls_def object_cls_def split: if_splits)
  from resolve_raises_only_from_user_code
      [of "''Example.Missing''" registry_AB raising_truth_code isinstance_A "PyType B_cls"
          "PyInstance A_cls 0" world_AB "Raised ''RuntimeError''" 1]
    idx f s len
  have raises: "fst (get_registered_name_in raising_truth_code (PyInstance A_cls 0) world_AB) =
      Inl (Raised ''RuntimeError'')"
    by simp
  from resolve_raises_only_from_user_code
      [of "''Example.Missing''" registry_AB builtin_code PNone PyNone
          "PyInstance C_cls 0" world_AB TypeError 0]
    bq inv quiet miss
  have rest: "fst (get_registered_class ''Example.Missing'' registry_AB) = Inr PyNone \<and>
      fst (get_registered_name_in builtin_code (PyInstance C_cls 0) world_AB) = Inr PyNone"
    by blast
  from raises rest raising_truth_quiet bq inv call_isinstance_A show ?thesis by simp
qed

text \<open>
  C7. Invalid arguments are rejected with nothing written. A predicate that is neither
  \<^verbatim>\<open>None\<close> nor callable makes \<^verbatim>\<open>register_serializable\<close> raise the \<^verbatim>\<open>ValueError\<close>
  "must be callable"; an argument that is not a class makes the decorator raise the
  \<^verbatim>\<open>ValueError\<close> "must be a class". In both cases the registration ends in a
  \<^verbatim>\<open>ValueError\<close> and the state is the one before the call.
\<close>

theorem invalid_argument_rejected:
  "(\<not> is_None predicate \<and> \<not> callable predicate \<longrightarrow>
      register_serializable package name predicate = Inl (ValueError MustBeCallable) \<and>
      register package name predicate arg st = (Inl (ValueError MustBeCallable), st)) \<and>
   (\<not> isclass arg \<longrightarrow>
      decorator package name predicate arg st = (Inl (ValueError (MustBeClass arg)), st) \<and>
      (\<exists>m. register package name predicate arg st = (Inl (ValueError m), st)))"
  by (auto simp: register_def register_serializable_def decorator_def)

theorem invalid_argument_rejected_witness:
  "\<not> is_None (PNonCallable True) \<and> \<not> callable (PNonCallable True) \<and>
   register_serializable ''Example'' None (PNonCallable True) = Inl (ValueError MustBeCallable) \<and>
   register ''Example'' None (PNonCallable True) (PyType B_cls) registry_A =
     (Inl (ValueError MustBeCallable), registry_A) \<and>
   \<not> isclass (PyInt 3) \<and>
   decorator ''Example'' None PNone (PyInt 3) registry_A =
     (Inl (ValueError (MustBeClass (PyInt 3))), registry_A)"
  using invalid_argument_rejected [of "PNonCallable True" "''Example''" None "PyType B_cls" registry_A]
    invalid_argument_rejected [of PNone "''Example''" None "PyInt 3" registry_A]
  by simp

text \<open>
  C8. Name construction. A registration that succeeds was given a class, returns it,
  and writes under the string \<^verbatim>\<open>package + "." + class_name\<close>, where \<^verbatim>\<open>class_name\<close>
  is the explicit name or, without one, the \<^verbatim>\<open>__name__\<close> of the class: this string
  was no key before, it is the key that now maps to the predicate and the class, and it
  is the one element appended to the order list.
\<close>

theorem registered_name_construction:
  assumes "register package name predicate arg st = (Inr v, st')"
  shows "\<exists>T. arg = PyType T \<and> v = arg \<and>
    CLASS_REGISTRY st (package @ ''.'' @ (case name of Some n \<Rightarrow> n | None \<Rightarrow> class_name T)) = None \<and>
    CLASS_REGISTRY st' = (CLASS_REGISTRY st)
      (package @ ''.'' @ (case name of Some n \<Rightarrow> n | None \<Rightarrow> class_name T) \<mapsto> (predicate, arg)) \<and>
    REGISTERED_NAMES st' = REGISTERED_NAMES st @
      [package @ ''.'' @ (case name of Some n \<Rightarrow> n | None \<Rightarrow> class_name T)]"
proof -
  from register_Inr [OF assms] obtain T where T: "arg = PyType T" by (cases arg) auto
  from register_Inr [OF assms] show ?thesis
    by (cases name) (auto simp: T)
qed

theorem registered_name_construction_witness:
  "register ''Custom'' (Some ''Thing'') isinstance_A (PyType B_cls) registry_A =
     (Inr (PyType B_cls),
      \<lparr>CLASS_REGISTRY = [''Example.A'' \<mapsto> (PNone, PyType A_cls),
                         ''Custom.Thing'' \<mapsto> (isinstance_A, PyType B_cls)],
       REGISTERED_NAMES = [''Example.A'', ''Custom.Thing'']\<rparr>) \<and>
   REGISTERED_NAMES (snd (register ''Example'' None PNone (PyType A_cls) empty_registry)) =
     [''Example'' @ ''.'' @ ''A'']"
proof -
  have h: "register ''Custom'' (Some ''Thing'') isinstance_A (PyType B_cls) registry_A =
     (Inr (PyType B_cls),
      \<lparr>CLASS_REGISTRY = [''Example.A'' \<mapsto> (PNone, PyType A_cls),
                         ''Custom.Thing'' \<mapsto> (isinstance_A, PyType B_cls)],
       REGISTERED_NAMES = [''Example.A'', ''Custom.Thing'']\<rparr>)"
    by (simp add: registry_A_eq register_def register_serializable_def decorator_def
        isinstance_A_def Let_def)
  have nA: "class_name A_cls = ''A''" by (simp add: A_cls_def)
  from registered_name_construction [OF register_A] registered_name_construction [OF h] h nA
  show ?thesis by (auto simp: registry_A_def empty_registry_def)
qed

text \<open>
  C9, as stated, fails: \<^verbatim>\<open>predicate(obj)\<close> is user code that runs inside the loop of
  \<^verbatim>\<open>get_registered_name\<close>. With a stored predicate whose body registers \<^verbatim>\<open>C\<close>,
  resolving an instance of \<^verbatim>\<open>A\<close> returns a name and leaves a third name in the order
  list and a third key in the dict.
\<close>

theorem resolve_operations_read_only_counterexample:
  "REGISTERED_NAMES (globals world_AB) = [''Example.A'', ''Example.B''] \<and>
   fst (get_registered_name_in registering_code (PyInstance A_cls 0) world_AB) =
     Inr (PyStr ''Example.B'') \<and>
   REGISTERED_NAMES (globals (snd (get_registered_name_in registering_code (PyInstance A_cls 0) world_AB))) =
     [''Example.A'', ''Example.B'', ''Example.C''] \<and>
   CLASS_REGISTRY (globals world_AB) ''Example.C'' = None \<and>
   CLASS_REGISTRY (globals (snd (get_registered_name_in registering_code (PyInstance A_cls 0) world_AB)))
     ''Example.C'' = Some (PNone, PyType C_cls)"
  by (simp add: get_registered_name_in_def world_AB_def registry_AB_eq registering_code_def
      builtin_code_def first_if_def second_if_def dict_getitem_def isinstance_A_def
      isinstance_def A_cls_def C_cls_def register_def register_serializable_def decorator_def
      Let_def)

text \<open>
  C9, amended. The two resolve operations make no write of their own.
  \<^verbatim>\<open>get_registered_class\<close> leaves both globals unchanged. \<^verbatim>\<open>get_registered_name\<close>
  leaves them unchanged whenever the user code it runs (the truth tests, the comparison
  of types, the call of a predicate) leaves them unchanged; and whatever that user code
  does, a property of the world that each piece of user code preserves still holds
  after \<^verbatim>\<open>get_registered_name\<close>.
\<close>

theorem resolve_operations_write_nothing:
  "snd (get_registered_class registered_name st) = st \<and>
   (leaves_globals uc \<longrightarrow> globals (snd (get_registered_name_in uc obj w)) = globals w) \<and>
   ((\<forall>p w'. P w' \<longrightarrow> P (snd (pred_bool uc p w'))) \<and>
    (\<forall>a b w'. P w' \<longrightarrow> P (snd (type_eq uc a b w'))) \<and>
    (\<forall>p a w'. P w' \<longrightarrow> P (snd (pred_call uc p a w'))) \<and>
    (\<forall>r w'. P w' \<longrightarrow> P (snd (result_bool uc r w'))) \<and> P w \<longrightarrow>
    P (snd (get_registered_name_in uc obj w)))"
proof -
  have a: "snd (get_registered_class registered_name st) = st"
    by (auto simp: get_registered_class_def split: sum.splits exn.splits)
  have b: "globals (snd (get_registered_name_in uc obj w)) = globals w" if q: "leaves_globals uc"
    using leaves_globals_keeps(3) [OF q] by (simp add: get_registered_name_in_def)
  have c: "P (snd (get_registered_name_in uc obj w))"
    if "\<forall>p w'. P w' \<longrightarrow> P (snd (pred_bool uc p w'))"
      and "\<forall>a b w'. P w' \<longrightarrow> P (snd (type_eq uc a b w'))"
      and "\<forall>p a w'. P w' \<longrightarrow> P (snd (pred_call uc p a w'))"
      and "\<forall>r w'. P w' \<longrightarrow> P (snd (result_bool uc r w'))"
      and "P w"
    using that scan_in_keeps [of P uc w obj "length (REGISTERED_NAMES (globals w))"]
    by (simp add: get_registered_name_in_def)
  from a b c show ?thesis by blast
qed

theorem resolve_operations_write_nothing_witness:
  "leaves_globals (builtin_code :: unit usercode) \<and>
   snd (get_registered_class ''Example.A'' registry_AB) = registry_AB \<and>
   globals (snd (get_registered_name_in builtin_code (PyInstance A_cls 0) world_AB)) = registry_AB \<and>
   I1 (globals (snd (get_registered_name_in registering_code (PyInstance A_cls 0) world_AB)))"
proof -
  have g: "globals world_AB = registry_AB" by (simp add: world_AB_def)
  have inv: "I1 (globals world_AB)" by (simp add: g I1_registry_AB)
  have bq: "leaves_globals (builtin_code :: unit usercode)" by (rule builtin_quiet)
  have keep: "(\<forall>p w'. I1 (globals w') \<longrightarrow> I1 (globals (snd (pred_bool registering_code p w')))) \<and>
    (\<forall>a b w'. I1 (globals w') \<longrightarrow> I1 (globals (snd (type_eq registering_code a b w')))) \<and>
    (\<forall>p a w'. I1 (globals w') \<longrightarrow> I1 (globals (snd (pred_call registering_code p a w')))) \<and>
    (\<forall>r w'. I1 (globals w') \<longrightarrow> I1 (globals (snd (result_bool registering_code r w'))))"
    using exec_I1 [of _ "Register ''Example'' None PNone (PyType C_cls)"]
    by (simp add: registering_code_def builtin_code_def)
  from resolve_operations_write_nothing
      [of "''Example.A''" registry_AB builtin_code "PyInstance A_cls 0" world_AB "\<lambda>w. True"]
    resolve_operations_write_nothing
      [of "''Example.A''" registry_AB registering_code "PyInstance A_cls 0" world_AB
          "\<lambda>w. I1 (globals w)"]
    bq keep inv g
  show ?thesis by simp
qed

text \<open>
  C10. Truthiness dispatch. When the scan reaches an entry whose stored predicate is
  false in a condition (\<^verbatim>\<open>None\<close>, or a callable object that is false), the entry
  is matched by exact type equality and the predicate is not called. When the stored
  predicate is true in a condition and its call returns \<open>r\<close>, the entry matches exactly
  when \<open>r\<close> is true in a condition, whatever kind of value \<open>r\<close> is. The scan of
  \<^verbatim>\<open>get_registered_name\<close> starts at the last registered entry.
\<close>

theorem truthiness_dispatch:
  assumes "reg name = Some (predicate, cls)"
  shows "(\<not> pred_truthy predicate \<longrightarrow>
       scan reg obj (name # rest) =
         (if PyType (type_of obj) = cls then Inr (PyStr name) else scan reg obj rest)) \<and>
     (pred_truthy predicate \<longrightarrow> (\<forall>r. call predicate obj = Inr r \<longrightarrow>
       scan reg obj (name # rest) =
         (if truthy r then Inr (PyStr name) else scan reg obj rest))) \<and>
     (REGISTERED_NAMES st = earlier @ [name] \<and> CLASS_REGISTRY st = reg \<longrightarrow>
       fst (get_registered_name obj st) = scan reg obj (name # rev earlier))"
  using assms by (auto simp: dict_getitem_def get_registered_name_def)

theorem truthiness_dispatch_witness:
  "\<not> pred_truthy falsy_callable \<and>
   call falsy_callable (PyInstance A_cls 0) = Inr (PyBool True) \<and>
   scan [''Example.F'' \<mapsto> (falsy_callable, PyType C_cls)] (PyInstance A_cls 0) [''Example.F''] = Inr PyNone \<and>
   scan [''Example.F'' \<mapsto> (falsy_callable, PyType C_cls)] (PyInstance C_cls 0) [''Example.F''] =
     Inr (PyStr ''Example.F'') \<and>
   pred_truthy says_yes \<and>
   call says_yes (PyInt 0) = Inr (PyStr ''yes'') \<and>
   scan [''Example.Y'' \<mapsto> (says_yes, PyType C_cls)] (PyInt 0) [''Example.Y''] = Inr (PyStr ''Example.Y'')"
proof -
  have f: "\<not> pred_truthy falsy_callable" by (simp add: falsy_callable_def)
  have cf: "call falsy_callable (PyInstance A_cls 0) = Inr (PyBool True)"
    by (simp add: falsy_callable_def isinstance_def A_cls_def)
  have y: "pred_truthy says_yes" by (simp add: says_yes_def)
  have cy: "call says_yes (PyInt 0) = Inr (PyStr ''yes'')" by (simp add: says_yes_def)
  have hf: "[''Example.F'' \<mapsto> (falsy_callable, PyType C_cls)] ''Example.F'' = Some (falsy_callable, PyType C_cls)"
    by simp
  have hy: "[''Example.Y'' \<mapsto> (says_yes, PyType C_cls)] ''Example.Y'' = Some (says_yes, PyType C_cls)"
    by simp
  from truthiness_dispatch [where reg = "[''Example.F'' \<mapsto> (falsy_callable, PyType C_cls)]"
        and name = "''Example.F''" and obj = "PyInstance A_cls 0" and rest = "[]", OF hf]
    truthiness_dispatch [where reg = "[''Example.F'' \<mapsto> (falsy_callable, PyType C_cls)]"
        and name = "''Example.F''" and obj = "PyInstance C_cls 0" and rest = "[]", OF hf]
    truthiness_dispatch [where reg = "[''Example.Y'' \<mapsto> (says_yes, PyType C_cls)]"
        and name = "''Example.Y''" and obj = "PyInt 0" and rest = "[]", OF hy]
    f cf y cy A_neq_C
  show ?thesis by simp
qed

end
